theory Spec2Isabelle
  imports Main "HOL-Library.Sublist"
begin

section \<open>File marks of the regular files source (pkg/cmd/template/regular\_input.go)\<close>

text \<open>
  The development embeds \<open>applyFileMarks\<close>, \<open>fileMarkMatches\<close>, \<open>clearNils\<close> and
  \<open>Output\<close> of \<open>RegularFilesSource\<close>, each as a function that computes what the
  source does, a panic included.

  Go strings are modelled as \<open>string\<close>. The marks and paths are taken to be text, one
  \<open>char\<close> for each character: Go's regular expressions read a pattern and a path
  character by character, the separators \<open>:\<close> and \<open>=\<close> and the special characters of
  \<open>regexp.QuoteMeta\<close> are single characters, and nothing below measures a string. (A
  pattern that is not valid UTF-8, which \<open>regexp.MustCompile\<close> refuses, is not text.)
\<close>

subsection \<open>Library functions the source calls\<close>

definition backslash :: char where
  "backslash = CHR 0x5C"

definition newline :: char where
  "newline = CHR 0x0A"

text \<open>\<open>strings.SplitN(s, sep, 2)\<close> for a separator of one character: the text before the
  first separator and the text after it, or the whole string when there is none.\<close>

definition SplitN2 :: "string \<Rightarrow> char \<Rightarrow> string list" where
  "SplitN2 s sep =
     (if sep \<in> set s
      then [takeWhile (\<lambda>c. c \<noteq> sep) s, tl (dropWhile (\<lambda>c. c \<noteq> sep) s)]
      else [s])"

text \<open>\<open>strings.Replace(s, old, new, 1)\<close>: only the first (leftmost) occurrence of
  \<open>old\<close> is replaced.\<close>

fun Replace1 :: "string \<Rightarrow> string \<Rightarrow> string \<Rightarrow> string" where
  "Replace1 [] old new = (if old = [] then new else [])"
| "Replace1 (c # cs) old new =
     (if prefix old (c # cs) then new @ drop (length old) (c # cs)
      else c # Replace1 cs old new)"

text \<open>\<open>regexp.QuoteMeta\<close>: a backslash before each of the fourteen characters
  \<open>\.+*?()|[]{}^$\<close>.\<close>

definition special :: "char \<Rightarrow> bool" where
  "special c = (c \<in> set (backslash # ''.+*?()|[]{}^$''))"

fun QuoteMeta :: "string \<Rightarrow> string" where
  "QuoteMeta [] = []"
| "QuoteMeta (c # cs) =
     (if special c then backslash # c # QuoteMeta cs else c # QuoteMeta cs)"

text \<open>
  The fragment of Go's regular expressions that \<open>fileMarkMatches\<close> can build: literal
  characters (escaped when special), \<open>.+\<close> (one or more characters other than newline),
  \<open>[^/]+\<close> (one or more characters other than \<open>/\<close>), and the anchors \<open>^\<close> and \<open>$\<close>,
  which without the multi-line flag stand for the beginning and the end of the text.
\<close>

datatype regex_item = Lit char | AnyCharPlus | NotSlashPlus | BeginText | EndText

text \<open>\<open>regexp.Compile\<close> on that fragment; \<open>None\<close> is a pattern outside it.\<close>

fun Compile :: "string \<Rightarrow> regex_item list option" where
  "Compile [] = Some []"
| "Compile (c # cs) =
     (if c = backslash then
        (case cs of
           [] \<Rightarrow> None
         | d # ds \<Rightarrow> if special d then map_option ((#) (Lit d)) (Compile ds) else None)
      else if c = CHR ''^'' then map_option ((#) BeginText) (Compile cs)
      else if c = CHR ''$'' then map_option ((#) EndText) (Compile cs)
      else if prefix ''.+'' (c # cs) then map_option ((#) AnyCharPlus) (Compile (drop 1 cs))
      else if prefix ''[^/]+'' (c # cs) then map_option ((#) NotSlashPlus) (Compile (drop 4 cs))
      else if special c then None
      else map_option ((#) (Lit c)) (Compile cs))"

text \<open>Whether the items match a prefix of the text; \<open>start\<close> says that the text begins
  here.\<close>

fun match_here :: "bool \<Rightarrow> regex_item list \<Rightarrow> string \<Rightarrow> bool" where
  "match_here start [] t = True"
| "match_here start (Lit c # r) [] = False"
| "match_here start (Lit c # r) (x # xs) = (x = c \<and> match_here False r xs)"
| "match_here start (AnyCharPlus # r) [] = False"
| "match_here start (AnyCharPlus # r) (x # xs) =
     (x \<noteq> newline \<and> (match_here False r xs \<or> match_here False (AnyCharPlus # r) xs))"
| "match_here start (NotSlashPlus # r) [] = False"
| "match_here start (NotSlashPlus # r) (x # xs) =
     (x \<noteq> CHR ''/'' \<and> (match_here False r xs \<or> match_here False (NotSlashPlus # r) xs))"
| "match_here start (BeginText # r) t = (start \<and> match_here start r t)"
| "match_here start (EndText # r) t = (t = [] \<and> match_here start r t)"

text \<open>\<open>Regexp.MatchString\<close>: the expression matches somewhere in the text.\<close>

fun match_from :: "bool \<Rightarrow> regex_item list \<Rightarrow> string \<Rightarrow> bool" where
  "match_from start r [] = match_here start r []"
| "match_from start r (x # xs) = (match_here start r (x # xs) \<or> match_from False r xs)"

definition MatchString :: "regex_item list \<Rightarrow> string \<Rightarrow> bool" where
  "MatchString r t = match_from True r t"

subsection \<open>Files\<close>

datatype Type = TypeYAML | TypeText | TypeStarlark | TypeUnknown

text \<open>Modelled from the spec: the type \<open>files.File\<close> and its methods are declared in
  package \<open>files\<close>, which is not among the sources. Section 3 of the specification gives
  the fields; each \<open>Mark...\<close> method stores its argument in the field of its name and
  \<open>OriginalRelativePath\<close> reads the path assigned at ingestion.\<close>

record File =
  originalRelativePath :: string
  markedRelativePath :: string
  contentType :: Type
  templateEnabled :: bool
  forOutput :: bool

definition OriginalRelativePath :: "File \<Rightarrow> string" where
  "OriginalRelativePath f = originalRelativePath f"

definition MarkRelativePath :: "string \<Rightarrow> File \<Rightarrow> File" where
  "MarkRelativePath p f = f\<lparr>markedRelativePath := p\<rparr>"

definition MarkType :: "Type \<Rightarrow> File \<Rightarrow> File" where
  "MarkType t f = f\<lparr>contentType := t\<rparr>"

definition MarkTemplate :: "bool \<Rightarrow> File \<Rightarrow> File" where
  "MarkTemplate b f = f\<lparr>templateEnabled := b\<rparr>"

definition MarkForOutput :: "bool \<Rightarrow> File \<Rightarrow> File" where
  "MarkForOutput b f = f\<lparr>forOutput := b\<rparr>"

text \<open>
  The source handles files through pointers (\<open>[]*files.File\<close>): a pointer is an address
  or \<open>nil\<close> (\<open>None\<close>), and the store gives the file at each address. Marking a file
  updates the store, so every copy of the pointer sees the mark.
\<close>

type_synonym addr = nat
type_synonym store = "addr \<Rightarrow> File"

subsection \<open>Errors\<close>

text \<open>
  One constructor per error the source returns, carrying the mark or token its message
  quotes:
  \<^item> \<open>ErrMarkFormat\<close>: ``Expected file mark '..' to be in format path:key=value'';
  \<^item> \<open>ErrKeyValueFormat\<close>: ``Expected file mark '..' key-value portion to be in format
    key=value'';
  \<^item> \<open>ErrUnknownValue\<close>: ``Unknown value in file mark '..' '';
  \<^item> \<open>ErrUnknownKey\<close>: ``Unknown key in file mark '..' '';
  \<^item> \<open>ErrNoMatch\<close>: ``Expected file mark '..' to match at least one file by path, but
    did not'';
  \<^item> \<open>ErrUnknownOutputType\<close>: ``Unknown output type '..' '';
  \<^item> \<open>ErrMarshaling\<close>: ``Marshaling combined template result: ..'';
  \<^item> \<open>ErrExternal\<close>: an error produced by a collaborator;
  \<^item> \<open>PanicNilDereference\<close>: the run-time panic of reading a field through \<open>nil\<close>;
  \<^item> \<open>PanicRegexpCompile\<close>: the panic of \<open>regexp.MustCompile\<close>.
\<close>

datatype error =
    ErrMarkFormat string
  | ErrKeyValueFormat string
  | ErrUnknownValue string
  | ErrUnknownKey string
  | ErrNoMatch string
  | ErrUnknownOutputType string
  | ErrMarshaling error
  | ErrExternal string
  | PanicNilDereference
  | PanicRegexpCompile

subsection \<open>fileMarkMatches\<close>

definition quotedMultiLevel :: string where
  "quotedMultiLevel = QuoteMeta ''**/*''"

definition quotedSingleLevel :: string where
  "quotedSingleLevel = QuoteMeta ''*''"

text \<open>The regular expression source that \<open>fileMarkMatches\<close> hands to
  \<open>regexp.MustCompile\<close>.\<close>

definition markRegexp :: "string \<Rightarrow> string" where
  "markRegexp path =
     (let path1 = QuoteMeta path;
          path2 = Replace1 path1 quotedMultiLevel ''.+'';
          path3 = Replace1 path2 quotedSingleLevel ''[^/]+''
      in ''^'' @ path3 @ ''$'')"

text \<open>The receiver of \<open>MatchString\<close> is evaluated before its argument, so
  \<open>MustCompile\<close> runs before \<open>file.OriginalRelativePath()\<close> reads through the pointer.\<close>

definition fileMarkMatches :: "store \<Rightarrow> addr option \<Rightarrow> string \<Rightarrow> error + bool" where
  "fileMarkMatches h file path =
     (case Compile (markRegexp path) of
        None \<Rightarrow> Inl PanicRegexpCompile
      | Some re \<Rightarrow>
          (case file of
             None \<Rightarrow> Inl PanicNilDereference
           | Some a \<Rightarrow> Inr (MatchString re (OriginalRelativePath (h a)))))"

subsection \<open>applyFileMarks\<close>

text \<open>The variables of \<open>applyFileMarks\<close>: the slice \<open>filesToProcess\<close>, whose slots an
  \<open>exclude\<close> mark sets to \<open>nil\<close>, the files behind the pointers, and the slice
  \<open>exclusiveForOutputFiles\<close>.\<close>

record state =
  filesToProcess :: "addr option list"
  files :: store
  exclusiveForOutputFiles :: "addr list"

definition mark_file :: "addr \<Rightarrow> (File \<Rightarrow> File) \<Rightarrow> state \<Rightarrow> state" where
  "mark_file a m st = st\<lparr>files := (files st)(a := m (files st a))\<rparr>"

text \<open>The body of \<open>switch kv[0]\<close> (lines 121 to 175) for the matched file \<open>a\<close> in slot
  \<open>i\<close>.\<close>

definition applyKey ::
  "string \<Rightarrow> string \<Rightarrow> string \<Rightarrow> nat \<Rightarrow> addr \<Rightarrow> state \<Rightarrow> error + state" where
  "applyKey mark k v i a st =
     (if k = ''path'' then Inr (mark_file a (MarkRelativePath v) st)
      else if k = ''exclude'' then
        (if v = ''true'' then Inr (st\<lparr>filesToProcess := (filesToProcess st)[i := None]\<rparr>)
         else Inl (ErrUnknownValue mark))
      else if k = ''type'' then
        (if v = ''yaml-template'' then
           Inr (mark_file a (MarkTemplate True) (mark_file a (MarkType TypeYAML) st))
         else if v = ''yaml-plain'' then
           Inr (mark_file a (MarkTemplate False) (mark_file a (MarkType TypeYAML) st))
         else if v = ''text-template'' then
           Inr (mark_file a (MarkTemplate True) (mark_file a (MarkType TypeText) st))
         else if v = ''text-plain'' then
           Inr (mark_file a (MarkTemplate False) (mark_file a (MarkType TypeText) st))
         else if v = ''starlark'' then
           Inr (mark_file a (MarkTemplate False) (mark_file a (MarkType TypeStarlark) st))
         else if v = ''data'' then
           Inr (mark_file a (MarkTemplate False) (mark_file a (MarkType TypeUnknown) st))
         else Inl (ErrUnknownValue mark))
      else if k = ''for-output'' then
        (if v = ''true'' then Inr (mark_file a (MarkForOutput True) st)
         else Inl (ErrUnknownValue mark))
      else if k = ''exclusive-for-output'' then
        (if v = ''true''
         then Inr (st\<lparr>exclusiveForOutputFiles := exclusiveForOutputFiles st @ [a]\<rparr>)
         else Inl (ErrUnknownValue mark))
      else Inl (ErrUnknownKey mark))"

text \<open>
  The loop \<open>for i, file := range filesToProcess\<close> (lines 117 to 177), over the slots
  still to visit. It reads slot \<open>i\<close> when it reaches it; the only slot the body writes is
  the current one. The result is the error that ended the loop or the flag \<open>matched\<close>,
  with the state as the loop left it.
\<close>

fun scanFiles ::
  "string \<Rightarrow> string \<Rightarrow> string \<Rightarrow> string \<Rightarrow> nat list \<Rightarrow> bool \<Rightarrow> state
     \<Rightarrow> (error + bool) \<times> state" where
  "scanFiles mark path k v [] matched st = (Inr matched, st)"
| "scanFiles mark path k v (i # is) matched st =
     (case fileMarkMatches (files st) (filesToProcess st ! i) path of
        Inl e \<Rightarrow> (Inl e, st)
      | Inr False \<Rightarrow> scanFiles mark path k v is matched st
      | Inr True \<Rightarrow>
          (case filesToProcess st ! i of
             None \<Rightarrow> (Inl PanicNilDereference, st)
           | Some a \<Rightarrow>
               (case applyKey mark k v i a st of
                  Inl e \<Rightarrow> (Inl e, st)
                | Inr st' \<Rightarrow> scanFiles mark path k v is True st')))"

text \<open>Lines 103 to 113: the two calls of \<open>strings.SplitN\<close> and their length checks.\<close>

definition parseMark :: "string \<Rightarrow> error + (string \<times> string \<times> string)" where
  "parseMark mark =
     (let pieces = SplitN2 mark (CHR '':'') in
      if length pieces \<noteq> 2 then Inl (ErrMarkFormat mark)
      else
        let path = pieces ! 0; kv = SplitN2 (pieces ! 1) (CHR ''='') in
        if length kv \<noteq> 2 then Inl (ErrKeyValueFormat mark)
        else Inr (path, kv ! 0, kv ! 1))"

text \<open>One round of the loop over \<open>s.opts.fileMarks\<close> (lines 102 to 182): \<open>None\<close> when
  the mark was applied, the error otherwise.\<close>

definition applyMark :: "string \<Rightarrow> state \<Rightarrow> error option \<times> state" where
  "applyMark mark st =
     (case parseMark mark of
        Inl e \<Rightarrow> (Some e, st)
      | Inr (path, k, v) \<Rightarrow>
          (case scanFiles mark path k v [0..<length (filesToProcess st)] False st of
             (Inl e, st') \<Rightarrow> (Some e, st')
           | (Inr matched, st') \<Rightarrow>
               if \<not> matched then (Some (ErrNoMatch mark), st') else (None, st')))"

fun applyMarks :: "string list \<Rightarrow> state \<Rightarrow> error option \<times> state" where
  "applyMarks [] st = (None, st)"
| "applyMarks (mark # marks) st =
     (case applyMark mark st of
        (Some e, st') \<Rightarrow> (Some e, st')
      | (None, st') \<Rightarrow> applyMarks marks st')"

fun clearNils :: "addr option list \<Rightarrow> addr list" where
  "clearNils [] = []"
| "clearNils (None # input) = clearNils input"
| "clearNils (Some file # input) = file # clearNils input"

text \<open>The loops of lines 189 to 194: \<open>MarkForOutput(b)\<close> on each file of a slice in
  turn.\<close>

fun markAllForOutput :: "bool \<Rightarrow> addr list \<Rightarrow> store \<Rightarrow> store" where
  "markAllForOutput b [] h = h"
| "markAllForOutput b (a # as) h = markAllForOutput b as (h(a := MarkForOutput b (h a)))"

text \<open>
  \<open>applyFileMarks\<close>. The argument is the slice of (non-nil) files that ingestion built
  and the store they live in. The result is the returned slice or the error, together
  with the final state of the function's variables: the files are marked in place, so
  the marks made before an error stay in the store.
\<close>

definition initial :: "addr list \<Rightarrow> store \<Rightarrow> state" where
  "initial input h =
     \<lparr>filesToProcess = map Some input, files = h, exclusiveForOutputFiles = []\<rparr>"

definition finish :: "state \<Rightarrow> addr list \<times> state" where
  "finish st =
     (let output = clearNils (filesToProcess st) in
      if length (exclusiveForOutputFiles st) > 0
      then (output,
            st\<lparr>files := markAllForOutput True (exclusiveForOutputFiles st)
                           (markAllForOutput False output (files st))\<rparr>)
      else (output, st))"

definition applyFileMarks ::
  "string list \<Rightarrow> addr list \<Rightarrow> store \<Rightarrow> (error + addr list) \<times> state" where
  "applyFileMarks fileMarks input h =
     (case applyMarks fileMarks (initial input h) of
        (Some e, st) \<Rightarrow> (Inl e, st)
      | (None, st) \<Rightarrow> (case finish st of (output, st') \<Rightarrow> (Inr output, st')))"

subsection \<open>Output\<close>

text \<open>
  The collaborators of \<open>Output\<close> are parameters: \<open>write dir fs\<close> stands for
  \<open>files.NewOutputDirectory(dir, fs, ui).Write()\<close> and \<open>asBytes p\<close> for
  \<open>out.DocSet.AsBytesWithPrinter(p)\<close>. The printer function is \<open>None\<close> for \<open>nil\<close>.
  The result is the returned error (\<open>None\<close> for \<open>nil\<close>) and the calls made to the
  collaborators and the user interface, in order.
\<close>

datatype printer = JSONPrinter | WrappedFilePositionPrinter

record 'f TemplateOutput =
  Files :: 'f
  Err :: "error option"

record RegularFilesSourceOpts =
  outputDir :: string
  outputType :: string

datatype 'f call =
    WriteOutputDirectory string 'f
  | AsBytesWithPrinter "printer option"
  | Debugf string
  | Printf string

text \<open>The \<open>switch s.opts.outputType\<close> of lines 75 to 86.\<close>

definition printerFunc :: "string \<Rightarrow> error + printer option" where
  "printerFunc t =
     (if t = ''yaml'' then Inr None
      else if t = ''json'' then Inr (Some JSONPrinter)
      else if t = ''pos'' then Inr (Some WrappedFilePositionPrinter)
      else Inl (ErrUnknownOutputType t))"

text \<open>Lines 88 to 96: the combined document is marshalled with the chosen printer and
  printed.\<close>

definition marshalAndPrint ::
  "(printer option \<Rightarrow> error + string) \<Rightarrow> printer option \<Rightarrow> error option \<times> 'f call list" where
  "marshalAndPrint asBytes p =
     (case asBytes p of
        Inl e \<Rightarrow> (Some (ErrMarshaling e), [AsBytesWithPrinter p])
      | Inr combinedDocBytes \<Rightarrow>
          (None, [AsBytesWithPrinter p, Debugf (''### result'' @ [newline]),
                  Printf combinedDocBytes]))"

definition Output ::
  "RegularFilesSourceOpts \<Rightarrow> 'f TemplateOutput \<Rightarrow> (string \<Rightarrow> 'f \<Rightarrow> error option)
     \<Rightarrow> (printer option \<Rightarrow> error + string) \<Rightarrow> error option \<times> 'f call list" where
  "Output opts out write asBytes =
     (case Err out of
        Some e \<Rightarrow> (Some e, [])
      | None \<Rightarrow>
          if length (outputDir opts) > 0
          then (write (outputDir opts) (Files out),
                [WriteOutputDirectory (outputDir opts) (Files out)])
          else
            (case printerFunc (outputType opts) of
               Inl e \<Rightarrow> (Some e, [])
             | Inr p \<Rightarrow> marshalAndPrint asBytes p))"

section \<open>The path patterns of file marks\<close>

text \<open>
  What a pattern means, stated apart from the regular expression: a pattern is read as a
  list of items, and a path is accepted when it splits into consecutive pieces, one for
  each item. A literal character accepts itself, the multi-level wildcard accepts one or
  more characters other than newline, and the single-level wildcard accepts one or more
  characters other than \<open>/\<close>.
\<close>

datatype glob_item = Literal char | MultiLevel | SingleLevel

fun piece_ok :: "glob_item \<Rightarrow> string \<Rightarrow> bool" where
  "piece_ok (Literal c) w = (w = [c])"
| "piece_ok MultiLevel w = (w \<noteq> [] \<and> newline \<notin> set w)"
| "piece_ok SingleLevel w = (w \<noteq> [] \<and> CHR ''/'' \<notin> set w)"

definition glob_accepts :: "glob_item list \<Rightarrow> string \<Rightarrow> bool" where
  "glob_accepts g t = (\<exists>ws. concat ws = t \<and> list_all2 piece_ok g ws)"

fun multiLevelFirst :: "string \<Rightarrow> glob_item list" where
  "multiLevelFirst [] = []"
| "multiLevelFirst (c # cs) =
     (if prefix ''**/*'' (c # cs) then MultiLevel # map Literal (drop 3 cs)
      else Literal c # multiLevelFirst cs)"

fun singleLevelFirst :: "glob_item list \<Rightarrow> glob_item list" where
  "singleLevelFirst [] = []"
| "singleLevelFirst (Literal c # g) =
     (if c = CHR ''*'' then SingleLevel # g else Literal c # singleLevelFirst g)"
| "singleLevelFirst (MultiLevel # g) = MultiLevel # singleLevelFirst g"
| "singleLevelFirst (SingleLevel # g) = SingleLevel # singleLevelFirst g"

definition wildcards :: "string \<Rightarrow> glob_item list" where
  "wildcards pattern = singleLevelFirst (multiLevelFirst pattern)"

fun regex_of :: "glob_item \<Rightarrow> regex_item" where
  "regex_of (Literal c) = Lit c"
| "regex_of MultiLevel = AnyCharPlus"
| "regex_of SingleLevel = NotSlashPlus"

fun source_of :: "regex_item \<Rightarrow> string" where
  "source_of (Lit c) = (if special c then [backslash, c] else [c])"
| "source_of AnyCharPlus = ''.+''"
| "source_of NotSlashPlus = ''[^/]+''"
| "source_of BeginText = ''^''"
| "source_of EndText = ''$''"

definition sources :: "regex_item list \<Rightarrow> string" where
  "sources r = concat (map source_of r)"


text \<open>The six values of a \<open>type\<close> mark and the pair each stands for, as the
  specification lists them.\<close>

definition typePairs :: "(string \<times> Type \<times> bool) list" where
  "typePairs =
     [(''yaml-template'', TypeYAML, True), (''yaml-plain'', TypeYAML, False),
      (''text-template'', TypeText, True), (''text-plain'', TypeText, False),
      (''starlark'', TypeStarlark, False), (''data'', TypeUnknown, False)]"

text \<open>The files of a slice that a pattern matches.\<close>

definition matchingFiles :: "store \<Rightarrow> string \<Rightarrow> addr list \<Rightarrow> addr list" where
  "matchingFiles h path input = filter (\<lambda>a. fileMarkMatches h (Some a) path = Inr True) input"

text \<open>
  The files that the specification puts into the exclusivity accumulator: for each mark
  \<open>exclusive-for-output=true\<close>, in the order of the marks, the input files that its
  pattern matches.
\<close>

definition exclusiveMatches :: "store \<Rightarrow> addr list \<Rightarrow> string \<Rightarrow> addr list" where
  "exclusiveMatches h input mark =
     (case parseMark mark of
        Inl e \<Rightarrow> []
      | Inr (path, k, v) \<Rightarrow>
          if k = ''exclusive-for-output'' \<and> v = ''true'' then matchingFiles h path input
          else [])"

definition exclusiveMarked :: "string list \<Rightarrow> addr list \<Rightarrow> store \<Rightarrow> addr list" where
  "exclusiveMarked marks input h = concat (map (exclusiveMatches h input) marks)"

text \<open>The five recognized keys, and the values that are legal for a key.\<close>

definition recognizedKey :: "string \<Rightarrow> bool" where
  "recognizedKey k =
     (k \<in> {''path'', ''exclude'', ''type'', ''for-output'', ''exclusive-for-output''})"

definition legalValue :: "string \<Rightarrow> string \<Rightarrow> bool" where
  "legalValue k v =
     (if k = ''path'' then True
      else if k = ''type'' then v \<in> fst ` set typePairs
      else v = ''true'')"

section \<open>Example data\<close>

text \<open>A file as it could come from ingestion, and the store that holds the files of the
  given paths at the addresses 0, 1, 2, ...\<close>

definition exampleFile :: "string \<Rightarrow> File" where
  "exampleFile p =
     \<lparr>originalRelativePath = p, markedRelativePath = p, contentType = TypeYAML,
      templateEnabled = True, forOutput = False\<rparr>"

definition storeOf :: "string list \<Rightarrow> store" where
  "storeOf ps a = exampleFile (if a < length ps then ps ! a else [])"

text \<open>Collaborators of \<open>Output\<close> that succeed.\<close>

definition writeOk :: "string \<Rightarrow> addr list \<Rightarrow> error option" where
  "writeOk dir fs = None"

definition asBytesOk :: "printer option \<Rightarrow> error + string" where
  "asBytesOk p = Inr ''a: 1''"

text \<open>Marks that put two files into the exclusivity accumulator and then exclude one of
  them.\<close>

definition exampleMarks :: "string list" where
  "exampleMarks =
     [''a.yml:for-output=true'', ''config.yml:exclusive-for-output=true'',
      ''b.yml:exclusive-for-output=true'', ''b.yml:exclude=true'']"

section \<open>Properties of the pattern matcher\<close>

lemma sources_simps [simp]:
  "sources [] = []" "sources (x # r) = source_of x @ sources r"
  by (simp_all add: sources_def)

lemma special_chars [simp]:
  "special backslash" "special (CHR ''*'')" "special (CHR ''.'')" "special (CHR ''['')"
  "special (CHR ''^'')" "special (CHR ''$'')" "special (CHR ''+'')" "special (CHR '']'')"
  "\<not> special (CHR ''/'')"
  by (simp_all add: special_def backslash_def)

lemma not_special_neq:
  "\<not> special c \<Longrightarrow> c \<noteq> backslash \<and> c \<noteq> CHR ''*'' \<and> c \<noteq> CHR ''.'' \<and> c \<noteq> CHR ''['' \<and> c \<noteq> CHR ''^'' \<and> c \<noteq> CHR ''$''"
  by (auto simp: special_def)

lemma backslash_neq [simp]:
  "backslash \<noteq> CHR ''*''" "backslash \<noteq> CHR ''.''" "backslash \<noteq> CHR ''[''" "backslash \<noteq> CHR ''^''"
  "backslash \<noteq> CHR ''$''" "backslash \<noteq> CHR ''/''" "backslash \<noteq> CHR ''+''"
  "CHR ''*'' \<noteq> backslash" "CHR ''.'' \<noteq> backslash" "CHR ''['' \<noteq> backslash" "CHR ''^'' \<noteq> backslash"
  "CHR ''$'' \<noteq> backslash" "CHR ''/'' \<noteq> backslash" "CHR ''+'' \<noteq> backslash"
  by (simp_all add: backslash_def)

lemma Compile_source_of: "Compile (source_of x @ s) = map_option ((#) x) (Compile s)"
proof (cases x)
  case (Lit c)
  show ?thesis
  proof (cases "special c")
    case True
    then show ?thesis using Lit by simp
  next
    case False
    then show ?thesis using Lit not_special_neq [OF False] by auto
  qed
qed simp_all

lemma Compile_sources: "Compile (sources r @ s) = map_option ((@) r) (Compile s)"
proof (induction r)
  case Nil
  show ?case by (simp add: option.map_ident)
next
  case (Cons x r)
  then show ?case
    by (simp add: Compile_source_of option.map_comp comp_def del: Compile.simps source_of.simps)
qed

lemma QuoteMeta_sources: "QuoteMeta p = sources (map Lit p)"
  by (induction p) simp_all


lemma sources_append: "sources (r @ r') = sources r @ sources r'"
  by (simp add: sources_def)

lemma quotedMultiLevel_eq:
  "quotedMultiLevel = [backslash, CHR ''*'', backslash, CHR ''*'', CHR ''/'', backslash, CHR ''*'']"
  by (simp add: quotedMultiLevel_def)

lemma quotedSingleLevel_eq: "quotedSingleLevel = [backslash, CHR ''*'']"
  by (simp add: quotedSingleLevel_def)

lemma QuoteMeta_append: "QuoteMeta (p @ q) = QuoteMeta p @ QuoteMeta q"
  by (induction p) simp_all

lemma Replace1_prefix: "old \<noteq> [] \<Longrightarrow> Replace1 (old @ s) old new = new @ s"
  by (cases old) simp_all

lemma QuoteMeta_no_star: "QuoteMeta p \<noteq> CHR ''*'' # s"
  by (cases p) auto

lemma sources_no_star: "sources (map regex_of g) \<noteq> CHR ''*'' # s"
proof (cases g)
  case (Cons x g')
  then show ?thesis by (cases x) auto
qed simp

lemma prefix_quotedMultiLevel:
  "prefix quotedMultiLevel (QuoteMeta p) \<Longrightarrow> prefix ''**/*'' p"
proof -
  assume a: "prefix quotedMultiLevel (QuoteMeta p)"
  obtain c1 p1 where p: "p = c1 # p1" using a by (cases p) (auto simp: quotedMultiLevel_eq)
  have c1: "c1 = CHR ''*''" using a p by (auto simp: quotedMultiLevel_eq split: if_splits)
  have a1: "prefix [backslash, CHR ''*'', CHR ''/'', backslash, CHR ''*''] (QuoteMeta p1)"
    using a p c1 by (simp add: quotedMultiLevel_eq)
  obtain c2 p2 where p1: "p1 = c2 # p2" using a1 by (cases p1) auto
  have c2: "c2 = CHR ''*''" using a1 p1 by (auto split: if_splits)
  have a2: "prefix [CHR ''/'', backslash, CHR ''*''] (QuoteMeta p2)"
    using a1 p1 c2 by simp
  obtain c3 p3 where p2: "p2 = c3 # p3" using a2 by (cases p2) auto
  have c3: "c3 = CHR ''/''" using a2 p2 by (auto split: if_splits)
  have a3: "prefix [backslash, CHR ''*''] (QuoteMeta p3)"
    using a2 p2 c3 by simp
  obtain c4 p4 where p3: "p3 = c4 # p4" using a3 by (cases p3) auto
  have c4: "c4 = CHR ''*''" using a3 p3 by (auto split: if_splits)
  show ?thesis by (simp add: p p1 p2 p3 c1 c2 c3 c4)
qed

lemma Replace1_QuoteMeta_step:
  assumes "\<not> prefix ''**/*'' (c # cs)"
  shows "Replace1 (QuoteMeta (c # cs)) quotedMultiLevel new =
         source_of (Lit c) @ Replace1 (QuoteMeta cs) quotedMultiLevel new"
proof -
  have np: "\<not> prefix quotedMultiLevel (QuoteMeta (c # cs))"
    using assms prefix_quotedMultiLevel by blast
  show ?thesis
  proof (cases "special c")
    case True
    have "\<not> prefix quotedMultiLevel (c # QuoteMeta cs)"
      using QuoteMeta_no_star [of cs] by (cases "QuoteMeta cs") (auto simp: quotedMultiLevel_eq)
    then show ?thesis using True np by simp
  next
    case False
    then show ?thesis using np by simp
  qed
qed

lemma Replace1_multiLevel:
  "Replace1 (QuoteMeta p) quotedMultiLevel ''.+'' = sources (map regex_of (multiLevelFirst p))"
proof (induction p rule: multiLevelFirst.induct)
  case 1
  show ?case by (simp add: quotedMultiLevel_eq)
next
  case (2 c cs)
  show ?case
  proof (cases "prefix ''**/*'' (c # cs)")
    case True
    then obtain rest where r: "c # cs = ''**/*'' @ rest"
      by (auto simp: prefix_def)
    then have c: "c = CHR ''*''" and cs: "cs = ''*/*'' @ rest" by auto
    have q: "QuoteMeta (c # cs) = quotedMultiLevel @ QuoteMeta rest"
      unfolding r QuoteMeta_append by (simp add: quotedMultiLevel_def)
    have "Replace1 (QuoteMeta (c # cs)) quotedMultiLevel ''.+'' = ''.+'' @ QuoteMeta rest"
      unfolding q by (rule Replace1_prefix) (simp add: quotedMultiLevel_eq)
    also have "\<dots> = sources (map regex_of (multiLevelFirst (c # cs)))"
      unfolding c cs by (simp add: QuoteMeta_sources comp_def)
    finally show ?thesis .
  next
    case False
    have "Replace1 (QuoteMeta (c # cs)) quotedMultiLevel ''.+'' =
          source_of (Lit c) @ Replace1 (QuoteMeta cs) quotedMultiLevel ''.+''"
      by (rule Replace1_QuoteMeta_step [OF False])
    also have "\<dots> = source_of (Lit c) @ sources (map regex_of (multiLevelFirst cs))"
      by (simp only: 2 [OF False])
    also have "\<dots> = sources (map regex_of (Literal c # multiLevelFirst cs))"
      by simp
    also have "Literal c # multiLevelFirst cs = multiLevelFirst (c # cs)"
      using False by (simp only: multiLevelFirst.simps if_False)
    finally show ?thesis .
  qed
qed

lemma Replace1_singleLevel:
  "Replace1 (sources (map regex_of g)) quotedSingleLevel ''[^/]+'' =
   sources (map regex_of (singleLevelFirst g))"
proof (induction g rule: singleLevelFirst.induct)
  case 1
  show ?case by (simp add: quotedSingleLevel_eq)
next
  case (2 c g)
  show ?case
  proof (cases "c = CHR ''*''")
    case True
    then show ?thesis by (simp add: quotedSingleLevel_eq)
  next
    case False
    show ?thesis
    proof (cases "special c")
      case True
      have "\<not> prefix quotedSingleLevel (c # sources (map regex_of g))"
        using sources_no_star [of g] by (cases "sources (map regex_of g)") (auto simp: quotedSingleLevel_eq)
      then show ?thesis using True False 2 by (simp add: quotedSingleLevel_eq)
    next
      case nsp: False
      then show ?thesis using False 2 not_special_neq [OF nsp] by (auto simp: quotedSingleLevel_eq)
    qed
  qed
next
  case (3 g)
  then show ?case by (simp add: quotedSingleLevel_eq)
next
  case (4 g)
  then show ?case by (simp add: quotedSingleLevel_eq)
qed

lemma markRegexp_sources:
  "markRegexp p = sources (BeginText # map regex_of (wildcards p) @ [EndText])"
  by (simp add: markRegexp_def Let_def QuoteMeta_sources [symmetric] Replace1_multiLevel
      Replace1_singleLevel wildcards_def sources_append)

lemma Compile_markRegexp:
  "Compile (markRegexp p) = Some (BeginText # map regex_of (wildcards p) @ [EndText])"
proof -
  have "Compile (sources (BeginText # map regex_of (wildcards p) @ [EndText]) @ []) =
        map_option ((@) (BeginText # map regex_of (wildcards p) @ [EndText])) (Compile [])"
    by (rule Compile_sources)
  then show ?thesis by (simp add: markRegexp_sources del: sources_simps)
qed


lemma glob_accepts_Nil: "glob_accepts [] t = (t = [])"
  by (auto simp: glob_accepts_def)

lemma glob_accepts_Cons:
  "glob_accepts (x # g) t = (\<exists>w t'. t = w @ t' \<and> piece_ok x w \<and> glob_accepts g t')"
proof
  assume "glob_accepts (x # g) t"
  then obtain ws where ws: "concat ws = t" "list_all2 piece_ok (x # g) ws"
    by (auto simp: glob_accepts_def)
  then obtain w ws' where "ws = w # ws'" "piece_ok x w" "list_all2 piece_ok g ws'"
    by (auto simp: list_all2_Cons1)
  then have "t = w @ concat ws' \<and> piece_ok x w \<and> glob_accepts g (concat ws')"
    using ws by (auto simp: glob_accepts_def)
  then show "\<exists>w t'. t = w @ t' \<and> piece_ok x w \<and> glob_accepts g t'"
    by blast
next
  assume "\<exists>w t'. t = w @ t' \<and> piece_ok x w \<and> glob_accepts g t'"
  then obtain w ws' where "t = w @ concat ws'" "piece_ok x w" "list_all2 piece_ok g ws'"
    by (auto simp: glob_accepts_def)
  then have "concat (w # ws') = t \<and> list_all2 piece_ok (x # g) (w # ws')"
    by simp
  then show "glob_accepts (x # g) t"
    unfolding glob_accepts_def by blast
qed

lemma match_here_AnyCharPlus:
  "match_here b (AnyCharPlus # r) t =
     (\<exists>w t'. t = w @ t' \<and> w \<noteq> [] \<and> newline \<notin> set w \<and> match_here False r t')"
proof (induction t arbitrary: b)
  case Nil
  show ?case by simp
next
  case (Cons x xs)
  show ?case
  proof
    assume "match_here b (AnyCharPlus # r) (x # xs)"
    then have x: "x \<noteq> newline"
      and d: "match_here False r xs \<or> match_here False (AnyCharPlus # r) xs"
      by simp_all
    from d show "\<exists>w t'. x # xs = w @ t' \<and> w \<noteq> [] \<and> newline \<notin> set w \<and> match_here False r t'"
    proof
      assume "match_here False r xs"
      then have "x # xs = [x] @ xs \<and> [x] \<noteq> [] \<and> newline \<notin> set [x] \<and> match_here False r xs"
        using x by simp
      then show ?thesis by blast
    next
      assume "match_here False (AnyCharPlus # r) xs"
      then obtain w t' where "xs = w @ t'" "newline \<notin> set w" "match_here False r t'"
        using Cons.IH [of False] by blast
      then have "x # xs = (x # w) @ t' \<and> x # w \<noteq> [] \<and> newline \<notin> set (x # w) \<and> match_here False r t'"
        using x by simp
      then show ?thesis by blast
    qed
  next
    assume "\<exists>w t'. x # xs = w @ t' \<and> w \<noteq> [] \<and> newline \<notin> set w \<and> match_here False r t'"
    then obtain w t' where w: "x # xs = w @ t'" "w \<noteq> []" "newline \<notin> set w" "match_here False r t'"
      by blast
    then obtain w' where w': "w = x # w'" "xs = w' @ t'"
      by (cases w) auto
    show "match_here b (AnyCharPlus # r) (x # xs)"
    proof (cases "w' = []")
      case True
      then show ?thesis using w w' by auto
    next
      case False
      then have "match_here False (AnyCharPlus # r) xs"
        using Cons.IH [of False] w w' by auto
      then show ?thesis using w w' by auto
    qed
  qed
qed

lemma match_here_NotSlashPlus:
  "match_here b (NotSlashPlus # r) t =
     (\<exists>w t'. t = w @ t' \<and> w \<noteq> [] \<and> CHR ''/'' \<notin> set w \<and> match_here False r t')"
proof (induction t arbitrary: b)
  case Nil
  show ?case by simp
next
  case (Cons x xs)
  show ?case
  proof
    assume "match_here b (NotSlashPlus # r) (x # xs)"
    then have x: "x \<noteq> CHR ''/''"
      and d: "match_here False r xs \<or> match_here False (NotSlashPlus # r) xs"
      by simp_all
    from d show "\<exists>w t'. x # xs = w @ t' \<and> w \<noteq> [] \<and> CHR ''/'' \<notin> set w \<and> match_here False r t'"
    proof
      assume "match_here False r xs"
      then have "x # xs = [x] @ xs \<and> [x] \<noteq> [] \<and> CHR ''/'' \<notin> set [x] \<and> match_here False r xs"
        using x by simp
      then show ?thesis by blast
    next
      assume "match_here False (NotSlashPlus # r) xs"
      then obtain w t' where "xs = w @ t'" "CHR ''/'' \<notin> set w" "match_here False r t'"
        using Cons.IH [of False] by blast
      then have "x # xs = (x # w) @ t' \<and> x # w \<noteq> [] \<and> CHR ''/'' \<notin> set (x # w) \<and> match_here False r t'"
        using x by simp
      then show ?thesis by blast
    qed
  next
    assume "\<exists>w t'. x # xs = w @ t' \<and> w \<noteq> [] \<and> CHR ''/'' \<notin> set w \<and> match_here False r t'"
    then obtain w t' where w: "x # xs = w @ t'" "w \<noteq> []" "CHR ''/'' \<notin> set w" "match_here False r t'"
      by blast
    then obtain w' where w': "w = x # w'" "xs = w' @ t'"
      by (cases w) auto
    show "match_here b (NotSlashPlus # r) (x # xs)"
    proof (cases "w' = []")
      case True
      then show ?thesis using w w' by auto
    next
      case False
      then have "match_here False (NotSlashPlus # r) xs"
        using Cons.IH [of False] w w' by auto
      then show ?thesis using w w' by auto
    qed
  qed
qed

lemma match_here_glob:
  "match_here b (map regex_of g @ [EndText]) t = glob_accepts g t"
proof (induction g arbitrary: b t)
  case Nil
  show ?case by (simp add: glob_accepts_Nil)
next
  case (Cons x g)
  show ?case
  proof (cases x)
    case (Literal c)
    then show ?thesis
      by (cases t) (auto simp: glob_accepts_Cons Cons.IH)
  next
    case MultiLevel
    then show ?thesis
      by (simp add: match_here_AnyCharPlus glob_accepts_Cons Cons.IH del: match_here.simps)
  next
    case SingleLevel
    then show ?thesis
      by (simp add: match_here_NotSlashPlus glob_accepts_Cons Cons.IH del: match_here.simps)
  qed
qed

lemma match_from_BeginText: "match_from False (BeginText # r) t = False"
  by (induction t) simp_all

lemma MatchString_anchored:
  "MatchString (BeginText # map regex_of g @ [EndText]) t = glob_accepts g t"
proof -
  have "MatchString (BeginText # map regex_of g @ [EndText]) t =
        match_here True (BeginText # map regex_of g @ [EndText]) t"
    by (cases t) (simp_all add: MatchString_def match_from_BeginText del: match_here.simps)
  then show ?thesis by (simp add: match_here_glob del: match_here.simps(1-7,9))
qed

lemma fileMarkMatches_glob:
  "fileMarkMatches h (Some a) p =
     Inr (glob_accepts (wildcards p) (originalRelativePath (h a)))"
  by (simp add: fileMarkMatches_def Compile_markRegexp MatchString_anchored
      OriginalRelativePath_def)





















section \<open>Properties of the mark parser\<close>

lemma SplitN2_length: "(length (SplitN2 s sep) = 2) = (sep \<in> set s)"
  by (simp add: SplitN2_def)

lemma takeWhile_first: "sep \<notin> set p \<Longrightarrow> takeWhile (\<lambda>c. c \<noteq> sep) (p @ sep # r) = p"
  by (induction p) auto

lemma dropWhile_first: "sep \<notin> set p \<Longrightarrow> dropWhile (\<lambda>c. c \<noteq> sep) (p @ sep # r) = sep # r"
  by (induction p) auto

lemma SplitN2_found: "sep \<notin> set p \<Longrightarrow> SplitN2 (p @ sep # r) sep = [p, r]"
  by (simp add: SplitN2_def takeWhile_first dropWhile_first)

lemma first_occurrence:
  assumes "sep \<in> set s"
  shows "\<exists>p r. s = p @ sep # r \<and> sep \<notin> set p"
  using assms by (meson split_list_first)

lemma parseMark_parts:
  assumes "CHR '':'' \<notin> set p" "CHR ''='' \<notin> set k"
  shows "parseMark (p @ '':'' @ k @ ''='' @ v) = Inr (p, k, v)"
  using assms by (simp add: parseMark_def SplitN2_found)

lemma parseMark_no_colon:
  "(parseMark mark = Inl (ErrMarkFormat mark)) = (CHR '':'' \<notin> set mark)"
  by (simp add: parseMark_def Let_def SplitN2_length)

lemma parseMark_colon:
  assumes "CHR '':'' \<notin> set p"
  shows "parseMark (p @ CHR '':'' # r) =
           (if CHR ''='' \<in> set r
            then Inr (p, takeWhile (\<lambda>c. c \<noteq> CHR ''='') r, tl (dropWhile (\<lambda>c. c \<noteq> CHR ''='') r))
            else Inl (ErrKeyValueFormat (p @ CHR '':'' # r)))"
  using assms by (simp add: parseMark_def SplitN2_found) (simp add: SplitN2_def)

lemma split_at_first:
  assumes "sep \<in> set r"
  shows "r = takeWhile (\<lambda>c. c \<noteq> sep) r @ sep # tl (dropWhile (\<lambda>c. c \<noteq> sep) r) \<and>
         sep \<notin> set (takeWhile (\<lambda>c. c \<noteq> sep) r)"
proof -
  obtain p q where r: "r = p @ sep # q" "sep \<notin> set p"
    using first_occurrence [OF assms] by blast
  show ?thesis
    unfolding r(1) using r(2) by (simp add: takeWhile_first dropWhile_first)
qed

lemma parseMark_Inr:
  assumes "parseMark mark = Inr (p, k, v)"
  shows "mark = p @ '':'' @ k @ ''='' @ v \<and> CHR '':'' \<notin> set p \<and> CHR ''='' \<notin> set k"
proof -
  have c: "CHR '':'' \<in> set mark"
  proof (rule ccontr)
    assume "CHR '':'' \<notin> set mark"
    then have "parseMark mark = Inl (ErrMarkFormat mark)"
      using parseMark_no_colon by blast
    then show False using assms by simp
  qed
  obtain p' r where m: "mark = p' @ CHR '':'' # r" "CHR '':'' \<notin> set p'"
    using first_occurrence [OF c] by auto
  have pm: "parseMark mark =
           (if CHR ''='' \<in> set r
            then Inr (p', takeWhile (\<lambda>c. c \<noteq> CHR ''='') r, tl (dropWhile (\<lambda>c. c \<noteq> CHR ''='') r))
            else Inl (ErrKeyValueFormat mark))"
    unfolding m(1) by (rule parseMark_colon [OF m(2)])
  have e: "CHR ''='' \<in> set r"
  proof (rule ccontr)
    assume "CHR ''='' \<notin> set r"
    then have "parseMark mark = Inl (ErrKeyValueFormat mark)" using pm by simp
    then show False using assms by simp
  qed
  have eqs: "p = p'" "k = takeWhile (\<lambda>c. c \<noteq> CHR ''='') r"
    "v = tl (dropWhile (\<lambda>c. c \<noteq> CHR ''='') r)"
    using pm e assms by simp_all
  have "r = k @ CHR ''='' # v \<and> CHR ''='' \<notin> set k"
    unfolding eqs by (rule split_at_first [OF e])
  then show ?thesis using m eqs(1) by simp
qed

lemma first_sep_rest:
  "sep \<notin> set p' \<Longrightarrow> p' @ sep # r = p @ sep # q \<Longrightarrow> x \<in> set q \<Longrightarrow> x \<in> set r"
proof (induction p' arbitrary: p)
  case Nil
  then show ?case by (cases p) auto
next
  case (Cons y ys)
  then show ?case by (cases p) auto
qed

lemma parseMark_shape_iff:
  "(\<exists>e. parseMark mark = Inl e) = (\<nexists>p k v. mark = p @ '':'' @ k @ ''='' @ v)"
proof
  assume "\<exists>e. parseMark mark = Inl e"
  then obtain e where e: "parseMark mark = Inl e" by auto
  show "\<nexists>p k v. mark = p @ '':'' @ k @ ''='' @ v"
  proof
    assume "\<exists>p k v. mark = p @ '':'' @ k @ ''='' @ v"
    then obtain p k v where m: "mark = p @ CHR '':'' # (k @ CHR ''='' # v)" by auto
    then have c: "CHR '':'' \<in> set mark" by simp
    obtain p' r where m': "mark = p' @ CHR '':'' # r" "CHR '':'' \<notin> set p'"
      using first_occurrence [OF c] by auto
    have eq: "p' @ CHR '':'' # r = p @ CHR '':'' # (k @ CHR ''='' # v)"
      by (simp only: m [symmetric] m'(1) [symmetric])
    have "CHR ''='' \<in> set (k @ CHR ''='' # v)" by simp
    then have "CHR ''='' \<in> set r"
      by (rule first_sep_rest [OF m'(2) eq])
    then have "parseMark mark =
        Inr (p', takeWhile (\<lambda>c. c \<noteq> CHR ''='') r, tl (dropWhile (\<lambda>c. c \<noteq> CHR ''='') r))"
      unfolding m'(1) by (simp add: parseMark_colon [OF m'(2)])
    then show False using e by simp
  qed
next
  assume n: "\<nexists>p k v. mark = p @ '':'' @ k @ ''='' @ v"
  show "\<exists>e. parseMark mark = Inl e"
  proof (cases "parseMark mark")
    case (Inl e)
    then show ?thesis by auto
  next
    case (Inr t)
    obtain p k v where "t = (p, k, v)" by (cases t) auto
    then have "parseMark mark = Inr (p, k, v)" using Inr by simp
    then have "mark = p @ '':'' @ k @ ''='' @ v" by (simp only: parseMark_Inr)
    then have "\<exists>p k v. mark = p @ '':'' @ k @ ''='' @ v" by (intro exI)
    then show ?thesis using n by simp
  qed
qed

lemma parseMark_errors:
  "parseMark mark = Inl e \<Longrightarrow> e = ErrMarkFormat mark \<or> e = ErrKeyValueFormat mark"
proof (cases "CHR '':'' \<in> set mark")
  case True
  obtain p r where m: "mark = p @ CHR '':'' # r" "CHR '':'' \<notin> set p"
    using first_occurrence [OF True] by auto
  assume "parseMark mark = Inl e"
  then show ?thesis
    unfolding m(1) parseMark_colon [OF m(2)] by (cases "CHR ''='' \<in> set r") simp_all
next
  case False
  then have "parseMark mark = Inl (ErrMarkFormat mark)"
    by (simp add: parseMark_no_colon)
  moreover assume "parseMark mark = Inl e"
  ultimately show ?thesis by simp
qed

lemma parseMark_key_value_format:
  "(parseMark mark = Inl (ErrKeyValueFormat mark)) =
     (CHR '':'' \<in> set mark \<and> (\<exists>e. parseMark mark = Inl e))"
proof (cases "CHR '':'' \<in> set mark")
  case True
  show ?thesis
  proof
    assume "parseMark mark = Inl (ErrKeyValueFormat mark)"
    then show "CHR '':'' \<in> set mark \<and> (\<exists>e. parseMark mark = Inl e)"
      using True by simp
  next
    assume "CHR '':'' \<in> set mark \<and> (\<exists>e. parseMark mark = Inl e)"
    then obtain e where e: "parseMark mark = Inl e" by auto
    have "e \<noteq> ErrMarkFormat mark"
      using e True parseMark_no_colon [of mark] by auto
    then show "parseMark mark = Inl (ErrKeyValueFormat mark)"
      using e parseMark_errors [OF e] by simp
  qed
next
  case False
  then have "parseMark mark = Inl (ErrMarkFormat mark)"
    by (simp add: parseMark_no_colon)
  then show ?thesis using False by simp
qed

text \<open>
  Claim C8, as stated, fails: it says that parsing fails unless both splits yield two
  non-empty parts. The source checks only the number of pieces that \<open>strings.SplitN\<close>
  returns, so a mark with an empty pattern, key or value is parsed.
\<close>

theorem parseMark_accepts_empty_parts:
  "parseMark '':='' = Inr ([], [], []) \<and> parseMark ''a.yml:path='' = Inr (''a.yml'', ''path'', [])"
  by (simp add: parseMark_def SplitN2_def)

text \<open>
  Claim C8, amended: the parser splits the raw string at the first \<open>:\<close> into the pattern
  and the rest, and the rest at the first \<open>=\<close> into key and value; it fails if and only
  if the string has no \<open>:\<close> (the first format error) or the rest has no \<open>=\<close> (the
  key-value format error), that is, if and only if the string is not of the shape
  \<open>pattern:key=value\<close> with parts that may be empty. Whatever the key and the value are,
  a string of that shape is parsed: nothing about their meaning is checked here.
\<close>

theorem parseMark_shape:
  "(parseMark mark = Inr (p, k, v)) =
     (mark = p @ '':'' @ k @ ''='' @ v \<and> CHR '':'' \<notin> set p \<and> CHR ''='' \<notin> set k) \<and>
   (\<exists>e. parseMark mark = Inl e) = (\<nexists>p k v. mark = p @ '':'' @ k @ ''='' @ v) \<and>
   (parseMark mark = Inl (ErrMarkFormat mark)) = (CHR '':'' \<notin> set mark) \<and>
   (parseMark mark = Inl (ErrKeyValueFormat mark)) =
     (CHR '':'' \<in> set mark \<and> (\<nexists>p k v. mark = p @ '':'' @ k @ ''='' @ v))"
proof (intro conjI)
  show "(parseMark mark = Inr (p, k, v)) =
     (mark = p @ '':'' @ k @ ''='' @ v \<and> CHR '':'' \<notin> set p \<and> CHR ''='' \<notin> set k)"
  proof
    assume "parseMark mark = Inr (p, k, v)"
    then show "mark = p @ '':'' @ k @ ''='' @ v \<and> CHR '':'' \<notin> set p \<and> CHR ''='' \<notin> set k"
      by (rule parseMark_Inr)
  next
    assume a: "mark = p @ '':'' @ k @ ''='' @ v \<and> CHR '':'' \<notin> set p \<and> CHR ''='' \<notin> set k"
    then have "parseMark (p @ '':'' @ k @ ''='' @ v) = Inr (p, k, v)"
      by (intro parseMark_parts) simp_all
    then show "parseMark mark = Inr (p, k, v)" using a by simp
  qed
  show "(\<exists>e. parseMark mark = Inl e) = (\<nexists>p k v. mark = p @ '':'' @ k @ ''='' @ v)"
    by (rule parseMark_shape_iff)
  show "(parseMark mark = Inl (ErrMarkFormat mark)) = (CHR '':'' \<notin> set mark)"
    by (rule parseMark_no_colon)
  show "(parseMark mark = Inl (ErrKeyValueFormat mark)) =
     (CHR '':'' \<in> set mark \<and> (\<nexists>p k v. mark = p @ '':'' @ k @ ''='' @ v))"
    by (simp only: parseMark_key_value_format parseMark_shape_iff)
qed

section \<open>Properties of applyFileMarks\<close>

subsection \<open>The original relative path\<close>

lemma applyKey_originalRelativePath:
  "applyKey mark k v i a st = Inr st' \<Longrightarrow>
   originalRelativePath (files st' b) = originalRelativePath (files st b)"
  by (auto simp: applyKey_def mark_file_def MarkRelativePath_def MarkType_def
      MarkTemplate_def MarkForOutput_def split: if_splits)

lemma scanFiles_originalRelativePath:
  "originalRelativePath (files (snd (scanFiles mark path k v is m st)) b) =
   originalRelativePath (files st b)"
proof (induction "is" arbitrary: m st)
  case Nil
  show ?case by simp
next
  case (Cons i "is")
  show ?case
    by (auto simp: Cons.IH applyKey_originalRelativePath
        split: sum.splits bool.splits option.splits)
qed

lemma applyMark_originalRelativePath:
  "originalRelativePath (files (snd (applyMark mark st)) b) = originalRelativePath (files st b)"
proof (cases "parseMark mark")
  case (Inl e)
  then show ?thesis by (simp add: applyMark_def)
next
  case (Inr t)
  obtain path k v where t: "t = (path, k, v)" by (cases t) auto
  obtain r st' where s: "scanFiles mark path k v [0..<length (filesToProcess st)] False st = (r, st')"
    by (cases "scanFiles mark path k v [0..<length (filesToProcess st)] False st") auto
  have "originalRelativePath (files st' b) = originalRelativePath (files st b)"
    using scanFiles_originalRelativePath [of mark path k v "[0..<length (filesToProcess st)]" False st b] s
    by simp
  then show ?thesis
    using Inr t s by (auto simp: applyMark_def split: sum.splits)
qed

lemma applyMarks_originalRelativePath:
  "originalRelativePath (files (snd (applyMarks marks st)) b) = originalRelativePath (files st b)"
proof (induction marks arbitrary: st)
  case Nil
  show ?case by simp
next
  case (Cons mark marks)
  obtain r st' where s: "applyMark mark st = (r, st')" by (cases "applyMark mark st") auto
  have o: "originalRelativePath (files st' b) = originalRelativePath (files st b)"
    using applyMark_originalRelativePath [of mark st b] s by simp
  show ?case
  proof (cases r)
    case None
    then show ?thesis using s o Cons.IH [of st'] by simp
  next
    case (Some e)
    then show ?thesis using s o by simp
  qed
qed

lemma fileMarkMatches_cong:
  "(\<And>a. originalRelativePath (h a) = originalRelativePath (h' a)) \<Longrightarrow>
   fileMarkMatches h file p = fileMarkMatches h' file p"
  by (simp add: fileMarkMatches_def OriginalRelativePath_def split: option.splits)

text \<open>
  Claim C7: matching reads the original relative path, which no mark changes: whatever
  marks have been applied (and whether or not they ended in an error), every pattern
  matches a file, or fails on a \<open>nil\<close> slot, exactly as it did before them, and each
  file has the original relative path it had; a \<open>path\<close> mark rewrites the marked
  relative path and nothing else, and rewriting the marked relative path of a file
  changes no match.
\<close>

theorem matching_reads_original_path:
  "fileMarkMatches (files (snd (applyMarks marks st))) file p = fileMarkMatches (files st) file p \<and>
   originalRelativePath (files (snd (applyMarks marks st)) a) = originalRelativePath (files st a) \<and>
   applyKey mark ''path'' v i a st =
     Inr (st\<lparr>files := (files st)(a := (files st a)\<lparr>markedRelativePath := v\<rparr>)\<rparr>) \<and>
   fileMarkMatches (h(a := (h a)\<lparr>markedRelativePath := v\<rparr>)) file p = fileMarkMatches h file p"
proof -
  have "fileMarkMatches (files (snd (applyMarks marks st))) file p = fileMarkMatches (files st) file p"
    by (rule fileMarkMatches_cong) (rule applyMarks_originalRelativePath)
  moreover have
    "fileMarkMatches (h(a := (h a)\<lparr>markedRelativePath := v\<rparr>)) file p = fileMarkMatches h file p"
    by (rule fileMarkMatches_cong) simp
  ultimately show ?thesis
    by (simp add: applyMarks_originalRelativePath applyKey_def mark_file_def MarkRelativePath_def)
qed

subsection \<open>Cleared slots\<close>

lemma fileMarkMatches_None: "\<exists>e. fileMarkMatches h None path = Inl e"
  by (simp add: fileMarkMatches_def split: option.splits)

lemma applyKey_slots:
  assumes "applyKey mark k v i a st = Inr st'"
  shows "length (filesToProcess st') = length (filesToProcess st)"
    and "filesToProcess st ! j = None \<Longrightarrow> filesToProcess st' ! j = None"
    and "k \<noteq> ''exclude'' \<Longrightarrow> filesToProcess st' = filesToProcess st"
    and "k = ''exclude'' \<Longrightarrow> filesToProcess st' = (filesToProcess st)[i := None]"
proof -
  show "length (filesToProcess st') = length (filesToProcess st)"
    using assms by (auto simp: applyKey_def mark_file_def split: if_splits)
  show "k \<noteq> ''exclude'' \<Longrightarrow> filesToProcess st' = filesToProcess st"
    using assms by (auto simp: applyKey_def mark_file_def split: if_splits)
  show e: "k = ''exclude'' \<Longrightarrow> filesToProcess st' = (filesToProcess st)[i := None]"
    using assms by (auto simp: applyKey_def mark_file_def split: if_splits)
  show "filesToProcess st ! j = None \<Longrightarrow> filesToProcess st' ! j = None"
  proof (cases "k = ''exclude''")
    case True
    assume n: "filesToProcess st ! j = None"
    show ?thesis
      unfolding e [OF True] using n
      by (cases "i < length (filesToProcess st)") (simp_all add: nth_list_update list_update_beyond)
  next
    case False
    assume "filesToProcess st ! j = None"
    then show ?thesis
      using assms False by (auto simp: applyKey_def mark_file_def split: if_splits)
  qed
qed

lemma scanFiles_nil:
  "j \<in> set is \<Longrightarrow> filesToProcess st ! j = None \<Longrightarrow>
   \<exists>e. fst (scanFiles mark path k v is m st) = Inl e"
proof (induction "is" arbitrary: m st)
  case Nil
  then show ?case by simp
next
  case (Cons i "is")
  show ?case
  proof (cases "fileMarkMatches (files st) (filesToProcess st ! i) path")
    case (Inl e)
    then show ?thesis by simp
  next
    case (Inr b)
    then obtain a where a: "filesToProcess st ! i = Some a"
      using fileMarkMatches_None [of "files st" path] by (cases "filesToProcess st ! i") auto
    then have ij: "i \<noteq> j" using Cons.prems(2) by auto
    then have j: "j \<in> set is" using Cons.prems(1) by simp
    show ?thesis
    proof (cases b)
      case False
      then show ?thesis using Inr Cons.IH [OF j Cons.prems(2)] by simp
    next
      case True
      show ?thesis
      proof (cases "applyKey mark k v i a st")
        case (Inl e)
        then show ?thesis using Inr True a by simp
      next
        case st': (Inr st')
        have "filesToProcess st' ! j = None"
          using applyKey_slots(2) [OF st' Cons.prems(2)] .
        then show ?thesis
          using Inr True a st' Cons.IH [OF j, of st'] by simp
      qed
    qed
  qed
qed

lemma applyMark_nil:
  assumes "None \<in> set (filesToProcess st)"
  shows "\<exists>e. fst (applyMark mark st) = Some e"
proof (cases "parseMark mark")
  case (Inl e)
  then show ?thesis by (simp add: applyMark_def)
next
  case (Inr t)
  obtain path k v where t: "t = (path, k, v)" by (cases t) auto
  obtain j where j: "j < length (filesToProcess st)" "filesToProcess st ! j = None"
    using assms by (auto simp: in_set_conv_nth)
  then have "j \<in> set [0..<length (filesToProcess st)]" by simp
  then obtain e where
    "fst (scanFiles mark path k v [0..<length (filesToProcess st)] False st) = Inl e"
    using scanFiles_nil j(2) by blast
  then show ?thesis
    using Inr t by (auto simp: applyMark_def split: prod.splits sum.splits)
qed

lemma scanFiles_keeps_slots:
  "k \<noteq> ''exclude'' \<Longrightarrow>
   filesToProcess (snd (scanFiles mark path k v is m st)) = filesToProcess st"
proof (induction "is" arbitrary: m st)
  case Nil
  show ?case by simp
next
  case (Cons i "is")
  show ?case
    using Cons.IH [OF Cons.prems] applyKey_slots(3) [OF _ Cons.prems]
    by (auto split: sum.splits bool.splits option.splits)
qed

lemma scanFiles_exclude_nil:
  "scanFiles mark path ''exclude'' v is m st = (Inr True, st') \<Longrightarrow>
   set is \<subseteq> {..<length (filesToProcess st)} \<Longrightarrow>
   (m \<Longrightarrow> None \<in> set (filesToProcess st)) \<Longrightarrow>
   None \<in> set (filesToProcess st')"
proof (induction "is" arbitrary: m st)
  case Nil
  then show ?case by simp
next
  case (Cons i "is")
  have il: "i < length (filesToProcess st)" and sub: "set is \<subseteq> {..<length (filesToProcess st)}"
    using Cons.prems(2) by auto
  show ?case
  proof (cases "fileMarkMatches (files st) (filesToProcess st ! i) path")
    case (Inl e)
    then show ?thesis using Cons.prems(1) by simp
  next
    case (Inr b)
    then obtain a where a: "filesToProcess st ! i = Some a"
      using fileMarkMatches_None [of "files st" path] by (cases "filesToProcess st ! i") auto
    show ?thesis
    proof (cases b)
      case False
      then have "scanFiles mark path ''exclude'' v is m st = (Inr True, st')"
        using Cons.prems(1) Inr by simp
      then show ?thesis using Cons.IH [OF _ sub] Cons.prems(3) by blast
    next
      case True
      show ?thesis
      proof (cases "applyKey mark ''exclude'' v i a st")
        case (Inl e)
        then show ?thesis using Cons.prems(1) Inr True a by simp
      next
        case st1: (Inr st1)
        have s: "scanFiles mark path ''exclude'' v is True st1 = (Inr True, st')"
          using Cons.prems(1) Inr True a st1 by simp
        have u: "filesToProcess st1 = (filesToProcess st)[i := None]"
          using applyKey_slots(4) [OF st1] by simp
        have n: "None \<in> set (filesToProcess st1)"
          unfolding u using il by (simp add: set_update_memI)
        have "set is \<subseteq> {..<length (filesToProcess st1)}"
          using sub u by simp
        then show ?thesis using Cons.IH [OF s] n by blast
      qed
    qed
  qed
qed

lemma applyMark_None:
  assumes "applyMark mark st = (None, st')"
  shows "\<exists>path k v. parseMark mark = Inr (path, k, v) \<and>
           scanFiles mark path k v [0..<length (filesToProcess st)] False st = (Inr True, st')"
proof (cases "parseMark mark")
  case (Inl e)
  then show ?thesis using assms by (simp add: applyMark_def)
next
  case (Inr t)
  obtain path k v where t: "t = (path, k, v)" by (cases t) auto
  obtain r st1 where s: "scanFiles mark path k v [0..<length (filesToProcess st)] False st = (r, st1)"
    by (cases "scanFiles mark path k v [0..<length (filesToProcess st)] False st") auto
  have "r = Inr True \<and> st1 = st'"
    using assms Inr t s by (auto simp: applyMark_def split: sum.splits if_splits)
  then show ?thesis using Inr t s by simp
qed

lemma applyMark_slots:
  assumes "applyMark mark st = (None, st')" "None \<notin> set (filesToProcess st')"
  shows "filesToProcess st' = filesToProcess st"
proof -
  obtain path k v where p: "parseMark mark = Inr (path, k, v)"
    and s: "scanFiles mark path k v [0..<length (filesToProcess st)] False st = (Inr True, st')"
    using applyMark_None [OF assms(1)] by auto
  show ?thesis
  proof (cases "k = ''exclude''")
    case True
    have "None \<in> set (filesToProcess st')"
      by (rule scanFiles_exclude_nil [of mark path v "[0..<length (filesToProcess st)]" False st st'])
        (use s True in auto)
    then show ?thesis using assms(2) by simp
  next
    case False
    then show ?thesis
      using scanFiles_keeps_slots [OF False, of mark path v "[0..<length (filesToProcess st)]" False st] s
      by simp
  qed
qed

lemma exclude_then_any_mark_fails:
  assumes "applyMark mark st = (None, st1)" "parseMark mark = Inr (path, ''exclude'', v)"
  shows "\<exists>e. fst (applyMark mark2 st1) = Some e"
proof -
  have s: "scanFiles mark path ''exclude'' v [0..<length (filesToProcess st)] False st = (Inr True, st1)"
    using applyMark_None [OF assms(1)] assms(2) by simp
  have "None \<in> set (filesToProcess st1)"
    by (rule scanFiles_exclude_nil [of mark path v "[0..<length (filesToProcess st)]" False st st1])
      (use s in auto)
  then show ?thesis by (rule applyMark_nil)
qed

text \<open>
  Claim C2 says that a mark evaluated after an \<open>exclude=true\<close> mark has cleared a slot
  completes without a nil dereference. The source does not do so: the loop of the later
  mark hands the cleared slot to \<open>fileMarkMatches\<close>, which reads the path through the
  \<open>nil\<close> pointer. Here the second mark targets another file, or the excluded file itself;
  lemma \<open>exclude_then_any_mark_fails\<close> shows that no mark at all can be applied after an
  \<open>exclude=true\<close> mark.
\<close>

theorem later_mark_after_exclude_panics:
  "fst (applyFileMarks [''a.yml:exclude=true'', ''b.yml:path=c.yml''] [0, 1]
         (storeOf [''a.yml'', ''b.yml''])) = Inl PanicNilDereference \<and>
   fst (applyFileMarks [''a.yml:exclude=true'', ''a.yml:path=c.yml''] [0, 1]
         (storeOf [''a.yml'', ''b.yml''])) = Inl PanicNilDereference"
  by code_simp

subsection \<open>Marks that match no file\<close>

lemma set_clearNils: "set (clearNils slots) = {a. Some a \<in> set slots}"
  by (induction slots rule: clearNils.induct) auto

lemma scanFiles_append:
  "scanFiles mark path k v (is1 @ is2) m st =
     (case scanFiles mark path k v is1 m st of
        (Inl e, st') \<Rightarrow> (Inl e, st')
      | (Inr m', st') \<Rightarrow> scanFiles mark path k v is2 m' st')"
proof (induction is1 arbitrary: m st)
  case Nil
  show ?case by simp
next
  case (Cons i is1)
  show ?case
    by (simp add: Cons.IH split: sum.splits bool.splits option.splits)
qed

lemma scanFiles_no_match:
  "(\<And>i. i \<in> set is \<Longrightarrow>
      \<exists>a. filesToProcess st ! i = Some a \<and> fileMarkMatches (files st) (Some a) path = Inr False) \<Longrightarrow>
   scanFiles mark path k v is m st = (Inr m, st)"
proof (induction "is" arbitrary: m)
  case Nil
  show ?case by simp
next
  case (Cons i "is")
  obtain a where "filesToProcess st ! i = Some a"
    "fileMarkMatches (files st) (Some a) path = Inr False"
    using Cons.prems [of i] by auto
  then show ?case using Cons.IH Cons.prems by simp
qed

lemma applyMarks_append:
  "applyMarks (ms1 @ ms2) st =
     (case applyMarks ms1 st of
        (Some e, st') \<Rightarrow> (Some e, st')
      | (None, st') \<Rightarrow> applyMarks ms2 st')"
proof (induction ms1 arbitrary: st)
  case Nil
  show ?case by simp
next
  case (Cons m ms1)
  show ?case
    by (simp add: Cons.IH split: prod.splits option.splits)
qed

lemma applyMark_unmatched:
  assumes "parseMark mark = Inr (path, k, v)"
    and "None \<notin> set (filesToProcess st)"
    and "matchingFiles (files st) path (clearNils (filesToProcess st)) = []"
  shows "applyMark mark st = (Some (ErrNoMatch mark), st)"
proof -
  have "scanFiles mark path k v [0..<length (filesToProcess st)] False st = (Inr False, st)"
  proof (rule scanFiles_no_match)
    fix i
    assume "i \<in> set [0..<length (filesToProcess st)]"
    then have i: "i < length (filesToProcess st)" by simp
    then have mem: "filesToProcess st ! i \<in> set (filesToProcess st)" by simp
    then have "filesToProcess st ! i \<noteq> None"
      using assms(2) by metis
    then obtain a where a: "filesToProcess st ! i = Some a"
      by (cases "filesToProcess st ! i") auto
    then have "Some a \<in> set (filesToProcess st)" using mem by simp
    then have "a \<in> set (clearNils (filesToProcess st))" by (simp add: set_clearNils)
    then have "fileMarkMatches (files st) (Some a) path \<noteq> Inr True"
      using assms(3) by (auto simp: matchingFiles_def filter_empty_conv)
    then have "fileMarkMatches (files st) (Some a) path = Inr False"
      by (simp add: fileMarkMatches_glob)
    then show "\<exists>a. filesToProcess st ! i = Some a \<and>
                 fileMarkMatches (files st) (Some a) path = Inr False"
      using a by simp
  qed
  then show ?thesis using assms(1) by (simp add: applyMark_def)
qed

lemma unmatched_mark_fails:
  assumes "applyMarks before st = (None, st1)"
    and "parseMark mark = Inr (path, k, v)"
    and "None \<notin> set (filesToProcess st1)"
    and "matchingFiles (files st1) path (clearNils (filesToProcess st1)) = []"
  shows "applyMarks (before @ mark # after) st = (Some (ErrNoMatch mark), st1)"
  using assms(1) applyMark_unmatched [OF assms(2,3,4)] by (simp add: applyMarks_append)

text \<open>
  Claim C3 says that a mark whose pattern matches no file fails with the error of
  \<open>ErrNoMatch\<close> wherever it stands in the list. Lemma \<open>unmatched_mark_fails\<close> shows this
  for a mark that is evaluated while no slot is cleared, with the state left as the
  earlier marks made it. After an \<open>exclude=true\<close> mark the source panics instead, through
  the defect of claim C2.
\<close>

theorem unmatched_mark_after_exclude_panics:
  "fst (applyFileMarks [''a.yml:exclude=true'', ''missing.yml:path=x.yml''] [0, 1]
         (storeOf [''a.yml'', ''b.yml''])) = Inl PanicNilDereference"
  by code_simp

subsection \<open>Validation of keys and values\<close>

lemma applyKey_validation:
  "applyKey mark k v i a st =
     (if \<not> recognizedKey k then Inl (ErrUnknownKey mark)
      else if \<not> legalValue k v then Inl (ErrUnknownValue mark)
      else applyKey mark k v i a st) \<and>
   ((\<exists>st'. applyKey mark k v i a st = Inr st') = (recognizedKey k \<and> legalValue k v))"
  by (auto simp: applyKey_def recognizedKey_def legalValue_def typePairs_def)

lemma validation_at_first_match:
  assumes "parseMark mark = Inr (path, k, v)"
    and "filesToProcess st = map Some pre @ Some a # rest"
    and "\<And>b. b \<in> set pre \<Longrightarrow> fileMarkMatches (files st) (Some b) path = Inr False"
    and "fileMarkMatches (files st) (Some a) path = Inr True"
    and "applyKey mark k v (length pre) a st = Inl e"
  shows "applyMark mark st = (Some e, st)"
proof -
  let ?n = "length pre"
  have len: "length (filesToProcess st) = ?n + Suc (length rest)"
    by (simp add: assms(2))
  have "[0..<?n + Suc (length rest)] = [0..<?n] @ [?n..<?n + Suc (length rest)]"
    using upt_add_eq_append [of 0 ?n "Suc (length rest)"] by simp
  moreover have "[?n..<?n + Suc (length rest)] = ?n # [Suc ?n..<?n + Suc (length rest)]"
    by (rule upt_conv_Cons) simp
  ultimately have idx:
    "[0..<length (filesToProcess st)] = [0..<?n] @ ?n # [Suc ?n..<?n + Suc (length rest)]"
    unfolding len by (rule trans [OF _ arg_cong])
  have pre: "scanFiles mark path k v [0..<?n] False st = (Inr False, st)"
  proof (rule scanFiles_no_match)
    fix i
    assume "i \<in> set [0..<?n]"
    then have i: "i < ?n" by simp
    then have "filesToProcess st ! i = Some (pre ! i)"
      by (simp add: assms(2) nth_append)
    moreover have "fileMarkMatches (files st) (Some (pre ! i)) path = Inr False"
      using assms(3) i by simp
    ultimately show "\<exists>a. filesToProcess st ! i = Some a \<and>
                 fileMarkMatches (files st) (Some a) path = Inr False"
      by simp
  qed
  have at: "filesToProcess st ! ?n = Some a"
    by (simp add: assms(2) nth_append)
  have "scanFiles mark path k v (?n # [Suc ?n..<?n + Suc (length rest)]) False st = (Inl e, st)"
    using at assms(4,5) by simp
  then have "scanFiles mark path k v [0..<length (filesToProcess st)] False st = (Inl e, st)"
    unfolding idx scanFiles_append pre by simp
  then show ?thesis using assms(1) by (simp add: applyMark_def)
qed

text \<open>
  Claim C10 says that a mark with an unknown key or an illegal value fails with
  \<open>ErrNoMatch\<close> when its pattern matches no file, and with the key or value error at the
  first matching file otherwise. Lemmas \<open>applyMark_unmatched\<close>, \<open>applyKey_validation\<close> and
  \<open>validation_at_first_match\<close> show this while no slot is cleared. After an
  \<open>exclude=true\<close> mark the source panics at the cleared slot before it reaches the end of
  the collection or a matching file, through the defect of claim C2.
\<close>

theorem invalid_mark_after_exclude_panics:
  "fst (applyFileMarks [''a.yml:exclude=true'', ''missing.yml:badkey=1''] [0, 1]
         (storeOf [''a.yml'', ''b.yml''])) = Inl PanicNilDereference \<and>
   fst (applyFileMarks [''a.yml:exclude=true'', ''b.yml:badkey=1''] [0, 1]
         (storeOf [''a.yml'', ''b.yml''])) = Inl PanicNilDereference"
  by code_simp

subsection \<open>The type of a file\<close>








subsection \<open>The exclusivity accumulator\<close>

lemma forOutput_markAllForOutput:
  "forOutput (markAllForOutput b as h a) = (if a \<in> set as then b else forOutput (h a))"
  by (induction as arbitrary: h) (auto simp: MarkForOutput_def)

lemma finish_forOutput:
  assumes "finish st = (output, st')" "exclusiveForOutputFiles st \<noteq> []" "a \<in> set output"
  shows "forOutput (files st' a) = (a \<in> set (exclusiveForOutputFiles st))"
proof -
  have o: "output = clearNils (filesToProcess st)"
    and s: "files st' = markAllForOutput True (exclusiveForOutputFiles st)
              (markAllForOutput False output (files st))"
    using assms(1,2) by (auto simp: finish_def Let_def)
  show ?thesis
  proof (cases "a \<in> set (exclusiveForOutputFiles st)")
    case True
    then show ?thesis by (simp add: s forOutput_markAllForOutput)
  next
    case False
    then show ?thesis using assms(3) by (simp add: s forOutput_markAllForOutput)
  qed
qed

lemma finish_exclusive: "exclusiveForOutputFiles (snd (finish st)) = exclusiveForOutputFiles st"
  by (simp add: finish_def Let_def)

lemma applyFileMarks_Inr:
  assumes "applyFileMarks marks input h = (Inr output, st')"
  shows "\<exists>st. applyMarks marks (initial input h) = (None, st) \<and> finish st = (output, st')"
  using assms by (auto simp: applyFileMarks_def split: prod.splits option.splits)

lemma applyKey_exclusive_files:
  "applyKey mark ''exclusive-for-output'' v i a st = Inr st' \<Longrightarrow>
   files st' = files st \<and> filesToProcess st' = filesToProcess st \<and>
   exclusiveForOutputFiles st' = exclusiveForOutputFiles st @ [a]"
  by (auto simp: applyKey_def split: if_splits)

lemma applyKey_other_exclusive:
  "applyKey mark k v i a st = Inr st' \<Longrightarrow> k \<noteq> ''exclusive-for-output'' \<Longrightarrow>
   exclusiveForOutputFiles st' = exclusiveForOutputFiles st"
  by (auto simp: applyKey_def mark_file_def split: if_splits)

lemma scanFiles_exclusive_mark:
  "scanFiles mark path ''exclusive-for-output'' v is m st = (Inr m', st') \<Longrightarrow>
   exclusiveForOutputFiles st' =
     exclusiveForOutputFiles st @
     matchingFiles (files st) path (clearNils (map ((!) (filesToProcess st)) is))"
proof (induction "is" arbitrary: m st)
  case Nil
  then show ?case by (simp add: matchingFiles_def)
next
  case (Cons i "is")
  show ?case
  proof (cases "fileMarkMatches (files st) (filesToProcess st ! i) path")
    case (Inl e)
    then show ?thesis using Cons.prems by simp
  next
    case (Inr b)
    then obtain a where a: "filesToProcess st ! i = Some a"
      using fileMarkMatches_None [of "files st" path] by (cases "filesToProcess st ! i") auto
    show ?thesis
    proof (cases b)
      case False
      then have "scanFiles mark path ''exclusive-for-output'' v is m st = (Inr m', st')"
        using Cons.prems Inr by simp
      then show ?thesis
        using Cons.IH Inr False a by (simp add: matchingFiles_def)
    next
      case True
      show ?thesis
      proof (cases "applyKey mark ''exclusive-for-output'' v i a st")
        case (Inl e)
        then show ?thesis using Cons.prems Inr True a by simp
      next
        case st1: (Inr st1)
        have s: "scanFiles mark path ''exclusive-for-output'' v is True st1 = (Inr m', st')"
          using Cons.prems Inr True a st1 by simp
        have e: "files st1 = files st" "filesToProcess st1 = filesToProcess st"
          "exclusiveForOutputFiles st1 = exclusiveForOutputFiles st @ [a]"
          using applyKey_exclusive_files [OF st1] by simp_all
        show ?thesis
          using Cons.IH [OF s] e Inr True a by (simp add: matchingFiles_def)
      qed
    qed
  qed
qed

lemma scanFiles_other_exclusive:
  "k \<noteq> ''exclusive-for-output'' \<Longrightarrow>
   exclusiveForOutputFiles (snd (scanFiles mark path k v is m st)) = exclusiveForOutputFiles st"
proof (induction "is" arbitrary: m st)
  case Nil
  show ?case by simp
next
  case (Cons i "is")
  show ?case
    using Cons.IH [OF Cons.prems] applyKey_other_exclusive [OF _ Cons.prems]
    by (auto split: sum.splits bool.splits option.splits)
qed

lemma scanFiles_exclusive_value:
  "scanFiles mark path ''exclusive-for-output'' v is m st = (Inr True, st') \<Longrightarrow> \<not> m \<Longrightarrow>
   v = ''true''"
proof (induction "is" arbitrary: m st)
  case Nil
  then show ?case by simp
next
  case (Cons i "is")
  show ?case
  proof (cases "fileMarkMatches (files st) (filesToProcess st ! i) path")
    case (Inl e)
    then show ?thesis using Cons.prems(1) by simp
  next
    case (Inr b)
    then obtain a where a: "filesToProcess st ! i = Some a"
      using fileMarkMatches_None [of "files st" path] by (cases "filesToProcess st ! i") auto
    show ?thesis
    proof (cases b)
      case False
      then have "scanFiles mark path ''exclusive-for-output'' v is m st = (Inr True, st')"
        using Cons.prems(1) Inr by simp
      then show ?thesis using Cons.IH Cons.prems(2) by simp
    next
      case True
      show ?thesis
      proof (cases "applyKey mark ''exclusive-for-output'' v i a st")
        case (Inl e)
        then show ?thesis using Cons.prems(1) Inr True a by simp
      next
        case (Inr st1)
        then show ?thesis by (auto simp: applyKey_def split: if_splits)
      qed
    qed
  qed
qed

lemma applyMark_exclusive:
  assumes "applyMark mark st = (None, st')"
  shows "exclusiveForOutputFiles st' =
           exclusiveForOutputFiles st @
           exclusiveMatches (files st) (clearNils (filesToProcess st)) mark"
proof -
  obtain path k v where p: "parseMark mark = Inr (path, k, v)"
    and s: "scanFiles mark path k v [0..<length (filesToProcess st)] False st = (Inr True, st')"
    using applyMark_None [OF assms] by auto
  show ?thesis
  proof (cases "k = ''exclusive-for-output''")
    case True
    then have "v = ''true''"
      using scanFiles_exclusive_value [of mark path v "[0..<length (filesToProcess st)]" False st st'] s
      by simp
    then show ?thesis
      using scanFiles_exclusive_mark [of mark path v "[0..<length (filesToProcess st)]" False st True st'] s p True
      by (simp add: exclusiveMatches_def map_nth)
  next
    case False
    then show ?thesis
      using scanFiles_other_exclusive [OF False, of mark path v "[0..<length (filesToProcess st)]" False st] s p
      by (simp add: exclusiveMatches_def)
  qed
qed

lemma matchingFiles_cong:
  "(\<And>a. originalRelativePath (h a) = originalRelativePath (h' a)) \<Longrightarrow>
   matchingFiles h path input = matchingFiles h' path input"
  by (simp add: matchingFiles_def fileMarkMatches_glob)

lemma exclusiveMatches_cong:
  "(\<And>a. originalRelativePath (h a) = originalRelativePath (h' a)) \<Longrightarrow>
   exclusiveMatches h input mark = exclusiveMatches h' input mark"
  by (simp add: exclusiveMatches_def matchingFiles_cong [of h h'] split: sum.splits)

lemma applyMarks_exclusive:
  "applyMarks marks st = (None, st') \<Longrightarrow>
   exclusiveForOutputFiles st' =
     exclusiveForOutputFiles st @
     concat (map (exclusiveMatches (files st) (clearNils (filesToProcess st))) marks)"
proof (induction marks arbitrary: st)
  case Nil
  then show ?case by simp
next
  case (Cons mark marks)
  obtain r st1 where m: "applyMark mark st = (r, st1)" by (cases "applyMark mark st") auto
  have r: "r = None" and rest: "applyMarks marks st1 = (None, st')"
    using Cons.prems m by (cases r; simp)+
  have e1: "exclusiveForOutputFiles st1 =
           exclusiveForOutputFiles st @
           exclusiveMatches (files st) (clearNils (filesToProcess st)) mark"
    using applyMark_exclusive m r by simp
  show ?case
  proof (cases marks)
    case Nil
    then show ?thesis using rest e1 by simp
  next
    case (Cons mark2 marks2)
    obtain r2 st2 where m2: "applyMark mark2 st1 = (r2, st2)"
      by (cases "applyMark mark2 st1") auto
    have "r2 = None" using rest Cons m2 by (cases r2) simp_all
    then have "None \<notin> set (filesToProcess st1)"
      using applyMark_nil [of st1 mark2] m2 by auto
    then have sl: "filesToProcess st1 = filesToProcess st"
      using applyMark_slots [of mark st st1] m r by simp
    have o: "\<And>a. originalRelativePath (files st1 a) = originalRelativePath (files st a)"
      using applyMark_originalRelativePath [of mark st] m by simp
    have c: "exclusiveMatches (files st1) (clearNils (filesToProcess st1)) =
             exclusiveMatches (files st) (clearNils (filesToProcess st))"
      unfolding sl by (rule ext) (rule exclusiveMatches_cong [OF o])
    show ?thesis
      using Cons.IH [OF rest] e1 c by simp
  qed
qed

lemma clearNils_map_Some: "clearNils (map Some input) = input"
  by (induction input) simp_all

lemma applyFileMarks_exclusive:
  assumes "applyFileMarks marks input h = (Inr output, st)"
  shows "exclusiveForOutputFiles st = exclusiveMarked marks input h"
proof -
  obtain st0 where a: "applyMarks marks (initial input h) = (None, st0)"
    and f: "finish st0 = (output, st)"
    using applyFileMarks_Inr [OF assms] by auto
  have "exclusiveForOutputFiles st = exclusiveForOutputFiles st0"
    using finish_exclusive [of st0] f by simp
  then show ?thesis
    using applyMarks_exclusive [OF a]
    by (simp add: initial_def clearNils_map_Some exclusiveMarked_def)
qed

text \<open>
  Claim C1: when \<open>applyFileMarks\<close> returns, it returns the slots that are not cleared, and
  the accumulator holds exactly the files that the \<open>exclusive-for-output=true\<close> marks
  matched; if the accumulator is not empty, a file of the returned collection is for
  output if and only if it is in the accumulator, whatever a \<open>for-output\<close> mark had set
  before. Applying an \<open>exclusive-for-output=true\<close> mark to a
  file appends the file to the accumulator and leaves every file as it was (it does not
  set the output flag), and no other key changes the accumulator.
\<close>

theorem exclusive_for_output_override:
  "(applyFileMarks marks input h = (Inr output, st) \<longrightarrow>
      output = clearNils (filesToProcess st) \<and>
      exclusiveForOutputFiles st = exclusiveMarked marks input h \<and>
      (exclusiveMarked marks input h \<noteq> [] \<longrightarrow>
         (\<forall>a\<in>set output.
            forOutput (files st a) = (a \<in> set (exclusiveMarked marks input h))))) \<and>
   (applyKey mark ''exclusive-for-output'' v i b s = Inr s' \<longrightarrow>
      files s' = files s \<and> exclusiveForOutputFiles s' = exclusiveForOutputFiles s @ [b]) \<and>
   (k \<noteq> ''exclusive-for-output'' \<and> applyKey mark k v i b s = Inr s' \<longrightarrow>
      exclusiveForOutputFiles s' = exclusiveForOutputFiles s)"
proof (intro conjI impI ballI)
  assume a: "applyFileMarks marks input h = (Inr output, st)"
  show "output = clearNils (filesToProcess st)"
    using applyFileMarks_Inr [OF a] by (auto simp: finish_def Let_def split: if_splits)
  show e: "exclusiveForOutputFiles st = exclusiveMarked marks input h"
    by (rule applyFileMarks_exclusive [OF a])
  fix a
  assume n: "exclusiveMarked marks input h \<noteq> []" and o: "a \<in> set output"
  obtain st0 where f: "finish st0 = (output, st)"
    using applyFileMarks_Inr [OF a] by auto
  have e0: "exclusiveForOutputFiles st0 = exclusiveMarked marks input h"
    using finish_exclusive [of st0] f e by simp
  show "forOutput (files st a) = (a \<in> set (exclusiveMarked marks input h))"
    using finish_forOutput [OF f _ o] n e0 by simp
next
  assume "applyKey mark ''exclusive-for-output'' v i b s = Inr s'"
  then show "files s' = files s"
    and "exclusiveForOutputFiles s' = exclusiveForOutputFiles s @ [b]"
    using applyKey_exclusive_files by auto
next
  assume "k \<noteq> ''exclusive-for-output'' \<and> applyKey mark k v i b s = Inr s'"
  then show "exclusiveForOutputFiles s' = exclusiveForOutputFiles s"
    using applyKey_other_exclusive by auto
qed

theorem exclusive_for_output_override_witness:
  "fst (applyFileMarks exampleMarks [0, 1, 2] (storeOf [''a.yml'', ''config.yml'', ''b.yml''])) =
     Inr [0, 1] \<and>
   clearNils (filesToProcess
     (snd (applyFileMarks exampleMarks [0, 1, 2] (storeOf [''a.yml'', ''config.yml'', ''b.yml''])))) =
     [0, 1] \<and>
   exclusiveMarked exampleMarks [0, 1, 2] (storeOf [''a.yml'', ''config.yml'', ''b.yml'']) = [1, 2] \<and>
   exclusiveForOutputFiles
     (snd (applyFileMarks exampleMarks [0, 1, 2] (storeOf [''a.yml'', ''config.yml'', ''b.yml'']))) =
     [1, 2] \<and>
   forOutput (files
     (snd (applyFileMarks exampleMarks [0, 1, 2] (storeOf [''a.yml'', ''config.yml'', ''b.yml'']))) 0) =
     False \<and>
   forOutput (files
     (snd (applyFileMarks exampleMarks [0, 1, 2] (storeOf [''a.yml'', ''config.yml'', ''b.yml'']))) 1) =
     True"
proof -
  let ?h = "storeOf [''a.yml'', ''config.yml'', ''b.yml'']"
  let ?st = "snd (applyFileMarks exampleMarks [0, 1, 2] ?h)"
  have f: "fst (applyFileMarks exampleMarks [0, 1, 2] ?h) = Inr [0, 1]"
    by code_simp
  then have r: "applyFileMarks exampleMarks [0, 1, 2] ?h = (Inr [0, 1], ?st)"
    by (simp add: prod_eq_iff)
  have e: "exclusiveMarked exampleMarks [0, 1, 2] ?h = [1, 2]"
    by code_simp
  show ?thesis
    using exclusive_for_output_override [of exampleMarks "[0, 1, 2]" ?h "[0, 1]" ?st] f r e
    by simp
qed

section \<open>Properties of Output\<close>

text \<open>
  Claim C9, as stated, fails: it says that with an output directory configured the step
  always delegates to the directory writer, and that without one an unknown token always
  fails with the unknown-output-type error. \<open>Output\<close> first returns the error that the
  template output carries, if any, and then neither writes the directory nor looks at
  the token.
\<close>

theorem Output_error_first:
  "Output \<lparr>outputDir = ''out'', outputType = ''yaml''\<rparr>
      \<lparr>Files = [0, 1], Err = Some (ErrExternal ''template failed'')\<rparr> writeOk asBytesOk =
     (Some (ErrExternal ''template failed''), []) \<and>
   Output \<lparr>outputDir = [], outputType = ''xml''\<rparr>
      \<lparr>Files = [0, 1], Err = Some (ErrExternal ''template failed'')\<rparr> writeOk asBytesOk =
     (Some (ErrExternal ''template failed''), [])"
  by (simp add: Output_def)

text \<open>
  Claim C9, amended: when the template output carries no error, then for every
  output-type token, if an output directory is configured the step only calls the
  directory writer and returns its result, whatever the token is; otherwise \<open>yaml\<close>
  selects no printer (the default), \<open>json\<close> the JSON printer and \<open>pos\<close> the wrapped
  file-position printer, and any other token fails with the unknown-output-type error
  before anything is marshalled.
\<close>

theorem Output_selection:
  "Err out = None \<Longrightarrow>
   (outputDir opts \<noteq> [] \<longrightarrow>
      Output opts out write asBytes =
        (write (outputDir opts) (Files out), [WriteOutputDirectory (outputDir opts) (Files out)])) \<and>
   (outputDir opts = [] \<longrightarrow>
      (outputType opts = ''yaml'' \<longrightarrow>
         Output opts out write asBytes = marshalAndPrint asBytes None) \<and>
      (outputType opts = ''json'' \<longrightarrow>
         Output opts out write asBytes = marshalAndPrint asBytes (Some JSONPrinter)) \<and>
      (outputType opts = ''pos'' \<longrightarrow>
         Output opts out write asBytes = marshalAndPrint asBytes (Some WrappedFilePositionPrinter)) \<and>
      (outputType opts \<notin> {''yaml'', ''json'', ''pos''} \<longrightarrow>
         Output opts out write asBytes = (Some (ErrUnknownOutputType (outputType opts)), [])))"
  by (simp add: Output_def printerFunc_def marshalAndPrint_def)

theorem Output_selection_witness:
  "Output \<lparr>outputDir = ''out'', outputType = ''xml''\<rparr> \<lparr>Files = [0, 1], Err = None\<rparr> writeOk asBytesOk =
     (None, [WriteOutputDirectory ''out'' [0, 1]]) \<and>
   Output \<lparr>outputDir = [], outputType = ''json''\<rparr> \<lparr>Files = [0, 1], Err = None\<rparr> writeOk asBytesOk =
     (None, [AsBytesWithPrinter (Some JSONPrinter), Debugf (''### result'' @ [newline]), Printf ''a: 1'']) \<and>
   Output \<lparr>outputDir = [], outputType = ''xml''\<rparr> \<lparr>Files = [0, 1], Err = None\<rparr> writeOk asBytesOk =
     (Some (ErrUnknownOutputType ''xml''), [])"
  using
    Output_selection [of "\<lparr>Files = [0, 1], Err = None\<rparr>" "\<lparr>outputDir = ''out'', outputType = ''xml''\<rparr>" writeOk asBytesOk]
    Output_selection [of "\<lparr>Files = [0, 1], Err = None\<rparr>" "\<lparr>outputDir = [], outputType = ''json''\<rparr>" writeOk asBytesOk]
    Output_selection [of "\<lparr>Files = [0, 1], Err = None\<rparr>" "\<lparr>outputDir = [], outputType = ''xml''\<rparr>" writeOk asBytesOk]
  by (simp add: writeOk_def asBytesOk_def marshalAndPrint_def)

end
